theory Spec2Isabelle
  imports Main "HOL-Library.Char_ord" "HOL-Library.List_Lexorder" "HOL-Library.Multiset"
begin

section \<open>Python values\<close>

text \<open>
  The values a provider record can hold: \<open>None\<close>, an \<open>int\<close> (unbounded), a \<open>str\<close>,
  a \<open>bytes\<close> object and a \<open>list\<close> of such values. A \<open>str\<close> is a list of code points
  below 256, a \<open>bytes\<close> object a list of bytes; both are \<open>char list\<close>. Floats, booleans
  and nested mappings are outside the model. A \<open>dict\<close> with string keys is an
  association list in insertion order; a Python dict never holds a key twice
  (\<open>is_dict\<close>).
\<close>

datatype pyval = PNone | PInt int | PStr string | PBytes string | PList "pyval list"

type_synonym pydict = "(string \<times> pyval) list"

definition is_dict :: "pydict \<Rightarrow> bool" where
  "is_dict d = distinct (map fst d)"

text \<open>\<open>k in d\<close>, \<open>d.get(k)\<close> and \<open>d.get(k, default)\<close>.\<close>

definition has_key :: "pydict \<Rightarrow> string \<Rightarrow> bool" where
  "has_key d k = (map_of d k \<noteq> None)"

definition get :: "pydict \<Rightarrow> string \<Rightarrow> pyval" where
  "get d k = (case map_of d k of None \<Rightarrow> PNone | Some v \<Rightarrow> v)"

definition get_default :: "pydict \<Rightarrow> string \<Rightarrow> pyval \<Rightarrow> pyval" where
  "get_default d k dflt = (case map_of d k of None \<Rightarrow> dflt | Some v \<Rightarrow> v)"

text \<open>
  Exceptions carry the value that caused them: \<open>ValueError\<close> (invalid literal, or a
  decimal text beyond the interpreter's digit limit), \<open>TypeError\<close> (\<open>int()\<close> of a
  value that is no number or text; a value that is not JSON serializable) and any
  exception of the provider library, with its message.
\<close>

datatype py_exn = ValueError pyval | TypeError pyval | ProviderError string

section \<open>\<open>bytes.hex()\<close>\<close>

text \<open>Two lowercase hex digits for each byte, and no prefix.\<close>

definition hex_digit :: "nat \<Rightarrow> char" where
  "hex_digit n = ''0123456789abcdef'' ! n"

definition hex_byte :: "char \<Rightarrow> string" where
  "hex_byte c = [hex_digit (of_char c div 16), hex_digit (of_char c mod 16)]"

definition bytes_hex :: "string \<Rightarrow> string" where
  "bytes_hex bs = concat (map hex_byte bs)"

section \<open>\<open>int(x)\<close>\<close>

text \<open>
  \<open>int\<close> of a \<open>str\<close> or \<open>bytes\<close> reads base 10: surrounding whitespace is dropped, a sign
  may come first, then digits, where single underscores may stand between digits.
  Whitespace of \<open>bytes\<close> is 9 to 13 and 32; for a \<open>str\<close> the code points 133 and 160
  count as well, while 28 to 31 do not: \<open>int\<close> raises on them. A text of more than
  \<open>int_max_str_digits\<close> digits is refused (CPython's default limit).
\<close>

definition int_max_str_digits :: nat where
  "int_max_str_digits = 4300"

definition str_space :: "char \<Rightarrow> bool" where
  "str_space c = (let n = (of_char c :: nat) in
     (9 \<le> n \<and> n \<le> 13) \<or> n = 32 \<or> n = 133 \<or> n = 160)"

definition bytes_space :: "char \<Rightarrow> bool" where
  "bytes_space c = (let n = (of_char c :: nat) in (9 \<le> n \<and> n \<le> 13) \<or> n = 32)"

definition is_digit :: "char \<Rightarrow> bool" where
  "is_digit c = (let n = (of_char c :: nat) in 48 \<le> n \<and> n \<le> 57)"

definition digit_val :: "char \<Rightarrow> nat" where
  "digit_val c = of_char c - 48"

definition strip :: "(char \<Rightarrow> bool) \<Rightarrow> string \<Rightarrow> string" where
  "strip sp s = rev (dropWhile sp (rev (dropWhile sp s)))"

text \<open>The digits after the first one; \<open>acc\<close> is the value read so far.\<close>

fun scan_digits :: "nat \<Rightarrow> string \<Rightarrow> nat option" where
  "scan_digits acc [] = Some acc"
| "scan_digits acc [c] = (if is_digit c then Some (acc * 10 + digit_val c) else None)"
| "scan_digits acc (c # d # ds) =
     (if is_digit c then scan_digits (acc * 10 + digit_val c) (d # ds)
      else if c = CHR ''_'' \<and> is_digit d then scan_digits (acc * 10 + digit_val d) ds
      else None)"

definition parse_nat :: "string \<Rightarrow> nat option" where
  "parse_nat s = (case s of [] \<Rightarrow> None
     | c # cs \<Rightarrow> if is_digit c then scan_digits (digit_val c) cs else None)"

definition parse_int :: "(char \<Rightarrow> bool) \<Rightarrow> string \<Rightarrow> int option" where
  "parse_int sp s =
     (let t = strip sp s;
          neg = (case t of [] \<Rightarrow> False | c # _ \<Rightarrow> c = CHR ''-'');
          body = (case t of [] \<Rightarrow> [] | c # r \<Rightarrow> if c = CHR ''-'' \<or> c = CHR ''+'' then r else t)
      in case parse_nat body of
           None \<Rightarrow> None
         | Some n \<Rightarrow>
             if length (filter is_digit body) > int_max_str_digits then None
             else Some (if neg then - int n else int n))"

definition py_int :: "pyval \<Rightarrow> py_exn + int" where
  "py_int v = (case v of
       PInt n \<Rightarrow> Inr n
     | PStr s \<Rightarrow> (case parse_int str_space s of None \<Rightarrow> Inl (ValueError v) | Some n \<Rightarrow> Inr n)
     | PBytes b \<Rightarrow> (case parse_int bytes_space b of None \<Rightarrow> Inl (ValueError v) | Some n \<Rightarrow> Inr n)
     | PNone \<Rightarrow> Inl (TypeError v)
     | PList _ \<Rightarrow> Inl (TypeError v))"

section \<open>\<open>canonical_tx\<close>\<close>

text \<open>
  The dict display of \<open>canonical_tx\<close> evaluates its entries in order; the first
  \<open>int()\<close> that raises ends the call. \<open>build\<close> collects the entries that way.
\<close>

fun build :: "(string \<times> (py_exn + pyval)) list \<Rightarrow> py_exn + pydict" where
  "build [] = Inr []"
| "build ((k, Inl e) # es) = Inl e"
| "build ((k, Inr v) # es) = (case build es of Inl e \<Rightarrow> Inl e | Inr d \<Rightarrow> Inr ((k, v) # d))"

text \<open>\<open>int(tx.get(k, 0))\<close>\<close>

definition int_field :: "pydict \<Rightarrow> string \<Rightarrow> py_exn + pyval" where
  "int_field tx k = (case py_int (get_default tx k (PInt 0)) of Inl e \<Rightarrow> Inl e | Inr n \<Rightarrow> Inr (PInt n))"

text \<open>\<open>int(tx.get(k, 0)) if tx.get(k) is not None else None\<close>\<close>

definition opt_int_field :: "pydict \<Rightarrow> string \<Rightarrow> py_exn + pyval" where
  "opt_int_field tx k = (if get tx k \<noteq> PNone then int_field tx k else Inr PNone)"

text \<open>\<open>tx.get("hash").hex() if isinstance(tx.get("hash"), bytes) else tx.get("hash")\<close>\<close>

definition hash_field :: "pydict \<Rightarrow> pyval" where
  "hash_field tx = (case get tx ''hash'' of PBytes b \<Rightarrow> PStr (bytes_hex b) | v \<Rightarrow> v)"

definition canonical_tx :: "pydict \<Rightarrow> py_exn + pydict" where
  "canonical_tx tx = build
     [(''hash'', Inr (hash_field tx)),
      (''nonce'', int_field tx ''nonce''),
      (''from'', Inr (get tx ''from'')),
      (''to'', Inr (get tx ''to'')),
      (''value'', int_field tx ''value''),
      (''gas'', int_field tx ''gas''),
      (''gasPrice'', opt_int_field tx ''gasPrice''),
      (''maxFeePerGas'', opt_int_field tx ''maxFeePerGas''),
      (''maxPriorityFeePerGas'', opt_int_field tx ''maxPriorityFeePerGas''),
      (''type'', opt_int_field tx ''type''),
      (''input'', Inr (get tx ''input'')),
      (''accessList'', Inr (get_default tx ''accessList'' PNone)),
      (''chainId'', opt_int_field tx ''chainId''),
      (''v'', int_field tx ''v''),
      (''r'', int_field tx ''r''),
      (''s'', int_field tx ''s''),
      (''blockNumber'', opt_int_field tx ''blockNumber''),
      (''transactionIndex'', opt_int_field tx ''transactionIndex'')]"

section \<open>\<open>keccak_json\<close>\<close>

text \<open>
  \<open>json.dumps(obj, sort_keys=True, separators=(",", ":"))\<close> with the default
  \<open>ensure_ascii\<close>: a string is quoted, with the quote, the backslash and the control
  characters escaped and every code point outside 32 to 126 written \<open>\u00xx\<close>; an
  integer is written in decimal (refused beyond the digit limit); \<open>bytes\<close> are not
  serializable; the items of the dict are sorted by key.
\<close>

fun dec_nat :: "nat \<Rightarrow> string" where
  "dec_nat n = (if n < 10 then [''0123456789'' ! n]
     else dec_nat (n div 10) @ [''0123456789'' ! (n mod 10)])"

declare dec_nat.simps [simp del]

definition dec_int :: "int \<Rightarrow> string" where
  "dec_int i = (if i < 0 then CHR ''-'' # dec_nat (nat (- i)) else dec_nat (nat i))"

definition json_char :: "char \<Rightarrow> string" where
  "json_char c =
     (if c = CHR 0x22 then [CHR 0x5C, CHR 0x22]
      else if c = CHR 0x5C then [CHR 0x5C, CHR 0x5C]
      else if c = CHR 0x0A then [CHR 0x5C, CHR ''n'']
      else if c = CHR 0x0D then [CHR 0x5C, CHR ''r'']
      else if c = CHR 0x09 then [CHR 0x5C, CHR ''t'']
      else if c = CHR 0x08 then [CHR 0x5C, CHR ''b'']
      else if c = CHR 0x0C then [CHR 0x5C, CHR ''f'']
      else if 32 \<le> (of_char c :: nat) \<and> (of_char c :: nat) \<le> 126 then [c]
      else [CHR 0x5C, CHR ''u'', CHR ''0'', CHR ''0''] @ hex_byte c)"

definition json_str :: "string \<Rightarrow> string" where
  "json_str s = [CHR 0x22] @ concat (map json_char s) @ [CHR 0x22]"

text \<open>The results of a sequence of calls, or the first exception.\<close>

fun collect :: "(py_exn + 'a) list \<Rightarrow> py_exn + 'a list" where
  "collect [] = Inr []"
| "collect (Inl e # rs) = Inl e"
| "collect (Inr x # rs) = (case collect rs of Inl e \<Rightarrow> Inl e | Inr xs \<Rightarrow> Inr (x # xs))"

fun join :: "string \<Rightarrow> string list \<Rightarrow> string" where
  "join sep [] = []"
| "join sep [x] = x"
| "join sep (x # y # ys) = x @ sep @ join sep (y # ys)"

fun json_val :: "pyval \<Rightarrow> py_exn + string" where
  "json_val PNone = Inr ''null''"
| "json_val (PInt n) =
     (if length (dec_nat (nat \<bar>n\<bar>)) > int_max_str_digits then Inl (ValueError (PInt n))
      else Inr (dec_int n))"
| "json_val (PStr s) = Inr (json_str s)"
| "json_val (PBytes b) = Inl (TypeError (PBytes b))"
| "json_val (PList vs) =
     (case collect (map json_val vs) of Inl e \<Rightarrow> Inl e
      | Inr ts \<Rightarrow> Inr (''['' @ join '','' ts @ '']''))"

definition json_item :: "string \<times> pyval \<Rightarrow> py_exn + string" where
  "json_item kv = (case json_val (snd kv) of Inl e \<Rightarrow> Inl e
     | Inr t \<Rightarrow> Inr (json_str (fst kv) @ '':'' @ t))"

definition json_dumps :: "pydict \<Rightarrow> py_exn + string" where
  "json_dumps d = (case collect (map json_item (sort_key fst d)) of Inl e \<Rightarrow> Inl e
     | Inr ts \<Rightarrow> Inr (''{'' @ join '','' ts @ ''}''))"

text \<open>
  \<open>keccak\<close> stands for \<open>Web3.keccak(data).hex()\<close>, the hex text of the Keccak-256
  digest computed by the provider library.
\<close>

definition keccak_json :: "(string \<Rightarrow> string) \<Rightarrow> pydict \<Rightarrow> py_exn + string" where
  "keccak_json keccak obj = (case json_dumps obj of Inl e \<Rightarrow> Inl e
     | Inr data \<Rightarrow> Inr (''0x'' @ keccak data))"

section \<open>\<open>fetch_tx\<close>\<close>

text \<open>
  \<open>w3.eth.get_transaction(tx_hash)\<close> returns a record, returns \<open>None\<close> or raises;
  \<open>str_e\<close> is the interpreter's \<open>str(e)\<close>.
\<close>

definition fetch_tx :: "(py_exn \<Rightarrow> string) \<Rightarrow> (string \<Rightarrow> py_exn + pydict option) \<Rightarrow> string \<Rightarrow> pydict" where
  "fetch_tx str_e get_transaction tx_hash =
     (case get_transaction tx_hash of
        Inl e \<Rightarrow> [(''error'', PStr (str_e e))]
      | Inr None \<Rightarrow> [(''error'', PStr ''transaction not found'')]
      | Inr (Some tx) \<Rightarrow>
          (case canonical_tx tx of
             Inl e \<Rightarrow> [(''error'', PStr (str_e e))]
           | Inr c \<Rightarrow> c))"

section \<open>\<open>compare_txs\<close>\<close>

text \<open>
  The second component of the result is one of three dicts:
  \<open>{"errorA": .., "errorB": ..}\<close> (\<open>FetchFailure\<close>), \<open>{"root": ..}\<close> (\<open>Match\<close>) and
  \<open>{"rootA": .., "rootB": .., "fieldDiffs": ..}\<close> (\<open>Mismatch\<close>), where \<open>fieldDiffs\<close> maps
  a field name to \<open>{"a": .., "b": ..}\<close>, in insertion order.
\<close>

datatype info =
    FetchFailure pyval pyval
  | Match string
  | Mismatch string string "(string \<times> pyval \<times> pyval) list"

text \<open>\<open>tx_a == tx_b\<close>: as many items, and every item of one found in the other.\<close>

definition dict_eq :: "pydict \<Rightarrow> pydict \<Rightarrow> bool" where
  "dict_eq a b = (length a = length b \<and> list_all (\<lambda>kv. map_of b (fst kv) = Some (snd kv)) a)"

text \<open>\<open>sorted(set(tx_a.keys()) | set(tx_b.keys()))\<close>\<close>

definition union_keys :: "pydict \<Rightarrow> pydict \<Rightarrow> string list" where
  "union_keys a b = sort (remdups (map fst a @ map fst b))"

definition diff_fields :: "pydict \<Rightarrow> pydict \<Rightarrow> (string \<times> pyval \<times> pyval) list" where
  "diff_fields a b =
     map (\<lambda>k. (k, get a k, get b k)) (filter (\<lambda>k. get a k \<noteq> get b k) (union_keys a b))"

definition compare_txs :: "(string \<Rightarrow> string) \<Rightarrow> pydict \<Rightarrow> pydict \<Rightarrow> py_exn + (bool \<times> info)" where
  "compare_txs keccak tx_a tx_b =
     (if has_key tx_a ''error'' \<or> has_key tx_b ''error''
      then Inr (False, FetchFailure (get tx_a ''error'') (get tx_b ''error''))
      else if dict_eq tx_a tx_b
      then (case keccak_json keccak tx_a of Inl e \<Rightarrow> Inl e | Inr root \<Rightarrow> Inr (True, Match root))
      else (case keccak_json keccak tx_a of
              Inl e \<Rightarrow> Inl e
            | Inr rootA \<Rightarrow>
                (case keccak_json keccak tx_b of
                   Inl e \<Rightarrow> Inl e
                 | Inr rootB \<Rightarrow> Inr (False, Mismatch rootA rootB (diff_fields tx_a tx_b)))))"

section \<open>\<open>main\<close>\<close>

text \<open>
  A provider as \<open>main\<close> sees it: whether \<open>is_connected()\<close> holds, what \<open>eth.chain_id\<close>
  gives and what \<open>eth.get_transaction\<close> does. The run is the list of calls made to the
  providers, in order, with how the process ends: \<open>sys.exit(n)\<close>, an exception that
  nothing catches, or the end of \<open>main\<close> with the comparison it printed. Console output
  and the elapsed time are left out.
\<close>

record source =
  is_connected :: bool
  chain_id :: "py_exn + int"
  get_transaction :: "string \<Rightarrow> py_exn + pydict option"

datatype call = IsConnected string | ChainId string | GetTransaction string string

datatype outcome = Exit nat | Uncaught py_exn | Finished "bool \<times> info"

text \<open>\<open>txh.startswith("0x") and len(txh) == 66\<close>\<close>

definition hash_ok :: "string \<Rightarrow> bool" where
  "hash_ok txh = (take 2 txh = ''0x'' \<and> length txh = 66)"

text \<open>
  \<open>connect(url)\<close> asks the provider behind \<open>url\<close> whether it is connected and ends the
  process with \<open>sys.exit(1)\<close> (here \<open>None\<close>) when it is not.
\<close>

definition connect :: "source \<Rightarrow> string \<Rightarrow> source option" where
  "connect src url = (if \<not> is_connected src then None else Some src)"

definition main ::
  "(string \<Rightarrow> string) \<Rightarrow> (py_exn \<Rightarrow> string) \<Rightarrow> string \<Rightarrow> string \<Rightarrow> source \<Rightarrow> source \<Rightarrow>
   string list \<Rightarrow> call list \<times> outcome" where
  "main keccak str_e default_rpc_a default_rpc_b srcA srcB argv =
     (if length argv < 2 then ([], Exit 1)
      else
        let txh = argv ! 1;
            rpcA = (if length argv > 2 then argv ! 2 else default_rpc_a);
            rpcB = (if length argv > 3 then argv ! 3 else default_rpc_b)
        in
          if \<not> hash_ok txh then ([], Exit 2)
          else
            (case connect srcA rpcA of
               None \<Rightarrow> ([IsConnected rpcA], Exit 1)
             | Some wA \<Rightarrow>
            (case connect srcB rpcB of
               None \<Rightarrow> ([IsConnected rpcA, IsConnected rpcB], Exit 1)
             | Some wB \<Rightarrow>
            (case chain_id wA of
               Inl e \<Rightarrow> ([IsConnected rpcA, IsConnected rpcB, ChainId rpcA], Uncaught e)
             | Inr chainA \<Rightarrow>
            (case chain_id wB of
               Inl e \<Rightarrow> ([IsConnected rpcA, IsConnected rpcB, ChainId rpcA, ChainId rpcB], Uncaught e)
             | Inr chainB \<Rightarrow>
                 if chainA \<noteq> chainB
                 then ([IsConnected rpcA, IsConnected rpcB, ChainId rpcA, ChainId rpcB], Exit 3)
                 else
                   let txA = fetch_tx str_e (get_transaction wA) txh;
                       txB = fetch_tx str_e (get_transaction wB) txh;
                       calls = [IsConnected rpcA, IsConnected rpcB, ChainId rpcA, ChainId rpcB,
                                GetTransaction rpcA txh, GetTransaction rpcB txh]
                   in (case compare_txs keccak txA txB of
                         Inl e \<Rightarrow> (calls, Uncaught e)
                       | Inr res \<Rightarrow> (calls, Finished res)))))))"

section \<open>Field names and sample data\<close>

text \<open>
  The keys of the dict display of \<open>canonical_tx\<close>, in its order; the fields converted by
  \<open>int(tx.get(k, 0))\<close>; the fields converted that way unless \<open>tx.get(k)\<close> is \<open>None\<close>.
\<close>

definition canonical_keys :: "string list" where
  "canonical_keys = [''hash'', ''nonce'', ''from'', ''to'', ''value'', ''gas'', ''gasPrice'',
     ''maxFeePerGas'', ''maxPriorityFeePerGas'', ''type'', ''input'', ''accessList'', ''chainId'',
     ''v'', ''r'', ''s'', ''blockNumber'', ''transactionIndex'']"

definition required_int_fields :: "string list" where
  "required_int_fields = [''nonce'', ''value'', ''gas'', ''v'', ''r'', ''s'']"

definition optional_int_fields :: "string list" where
  "optional_int_fields = [''gasPrice'', ''maxFeePerGas'', ''maxPriorityFeePerGas'', ''type'',
     ''chainId'', ''blockNumber'', ''transactionIndex'']"

text \<open>The values \<open>json.dumps\<close> accepts.\<close>

fun serializable :: "pyval \<Rightarrow> bool" where
  "serializable PNone = True"
| "serializable (PInt n) = (length (dec_nat (nat \<bar>n\<bar>)) \<le> int_max_str_digits)"
| "serializable (PStr s) = True"
| "serializable (PBytes b) = False"
| "serializable (PList vs) = list_all serializable vs"

text \<open>The number a text of digits stands for, read from the left after \<open>acc\<close>.\<close>

definition digits_value :: "nat \<Rightarrow> string \<Rightarrow> nat" where
  "digits_value acc ds = foldl (\<lambda>a c. a * 10 + digit_val c) acc ds"

text \<open>
  The canonical form of the empty record, and a record with some fields with its
  canonical form.
\<close>

definition empty_canonical :: pydict where
  "empty_canonical =
     [(''hash'', PNone), (''nonce'', PInt 0), (''from'', PNone), (''to'', PNone),
      (''value'', PInt 0), (''gas'', PInt 0), (''gasPrice'', PNone), (''maxFeePerGas'', PNone),
      (''maxPriorityFeePerGas'', PNone), (''type'', PNone), (''input'', PNone),
      (''accessList'', PNone), (''chainId'', PNone), (''v'', PInt 0), (''r'', PInt 0),
      (''s'', PInt 0), (''blockNumber'', PNone), (''transactionIndex'', PNone)]"

definition partial_tx :: pydict where
  "partial_tx = [(''nonce'', PStr ''7''), (''gasPrice'', PNone), (''value'', PInt 1000000000000000000)]"

definition partial_canonical :: pydict where
  "partial_canonical =
     [(''hash'', PNone), (''nonce'', PInt 7), (''from'', PNone), (''to'', PNone),
      (''value'', PInt 1000000000000000000), (''gas'', PInt 0), (''gasPrice'', PNone),
      (''maxFeePerGas'', PNone), (''maxPriorityFeePerGas'', PNone), (''type'', PNone),
      (''input'', PNone), (''accessList'', PNone), (''chainId'', PNone), (''v'', PInt 0),
      (''r'', PInt 0), (''s'', PInt 0), (''blockNumber'', PNone), (''transactionIndex'', PNone)]"

text \<open>
  A raw record whose \<open>input\<close> is the four bytes a9 05 9c bb, with a \<open>nonce\<close>, and its
  canonical form.
\<close>

definition bytes_tx :: "int \<Rightarrow> pydict" where
  "bytes_tx nonce =
     [(''nonce'', PInt nonce), (''input'', PBytes [CHR 0xa9, CHR 0x05, CHR 0x9c, CHR 0xbb])]"

definition bytes_canonical :: "int \<Rightarrow> pydict" where
  "bytes_canonical nonce =
     [(''hash'', PNone), (''nonce'', PInt nonce), (''from'', PNone), (''to'', PNone),
      (''value'', PInt 0), (''gas'', PInt 0), (''gasPrice'', PNone), (''maxFeePerGas'', PNone),
      (''maxPriorityFeePerGas'', PNone), (''type'', PNone),
      (''input'', PBytes [CHR 0xa9, CHR 0x05, CHR 0x9c, CHR 0xbb]),
      (''accessList'', PNone), (''chainId'', PNone), (''v'', PInt 0), (''r'', PInt 0),
      (''s'', PInt 0), (''blockNumber'', PNone), (''transactionIndex'', PNone)]"

definition good_hash :: string where
  "good_hash = ''0x'' @ replicate 64 (CHR ''a'')"

definition provider :: "int \<Rightarrow> source" where
  "provider c = \<lparr>is_connected = True, chain_id = Inr c, get_transaction = (\<lambda>h. Inr (Some []))\<rparr>"

section \<open>Helper lemmas\<close>

subsection \<open>The dict display of \<open>canonical_tx\<close>\<close>

lemma build_keys: "build es = Inr d \<Longrightarrow> map fst d = map fst es"
  by (induction es arbitrary: d rule: build.induct) (auto split: sum.splits)

lemma build_map_of: "build es = Inr d \<Longrightarrow> map_of d k = map_option projr (map_of es k)"
  by (induction es arbitrary: d rule: build.induct) (auto split: sum.splits)

lemma build_Inr_iff: "(\<exists>d. build es = Inr d) \<longleftrightarrow> list_all (\<lambda>kr. \<not> isl (snd kr)) es"
  by (induction es rule: build.induct) (auto split: sum.splits)

lemma canonical_tx_keys: "canonical_tx tx = Inr c \<Longrightarrow> map fst c = canonical_keys"
  unfolding canonical_tx_def canonical_keys_def by (drule build_keys) simp

lemma canonical_tx_no_error: "canonical_tx tx = Inr c \<Longrightarrow> \<not> has_key c ''error''"
  unfolding has_key_def canonical_tx_def by (drule build_map_of [where k = "''error''"]) simp

lemma canonical_tx_empty: "canonical_tx [] = Inr empty_canonical"
  by (simp add: canonical_tx_def int_field_def opt_int_field_def get_def get_default_def
      py_int_def hash_field_def empty_canonical_def)





lemma int_field_ok:
  "\<not> has_key tx k \<or> (\<exists>n. py_int (get tx k) = Inr n) \<Longrightarrow> \<not> isl (int_field tx k)"
  by (auto simp: has_key_def int_field_def get_default_def get_def py_int_def split: option.splits)

lemma opt_int_field_ok:
  "get tx k = PNone \<or> (\<exists>n. py_int (get tx k) = Inr n) \<Longrightarrow> \<not> isl (opt_int_field tx k)"
  by (auto simp: opt_int_field_def int_field_def get_default_def get_def split: option.splits)

lemma py_int_7: "py_int (PStr ''7'') = Inr 7"
  by (simp add: py_int_def parse_int_def strip_def str_space_def parse_nat_def is_digit_def
       digit_val_def int_max_str_digits_def)

lemma get_error_canonical: "canonical_tx tx = Inr c \<Longrightarrow> get c ''error'' = PNone"
  using canonical_tx_no_error [of tx c] by (simp add: has_key_def get_def)

lemma canonical_tx_partial: "canonical_tx partial_tx = Inr partial_canonical"
  by (simp add: canonical_tx_def int_field_def opt_int_field_def get_def get_default_def
      py_int_7 hash_field_def partial_tx_def partial_canonical_def)
     (simp add: py_int_def)

lemma not_isl_collapse: "\<not> isl r \<Longrightarrow> r = Inr (projr r)"
  by (cases r) simp_all

lemma canonical_tx_required:
  assumes c: "canonical_tx tx = Inr c" and k: "k \<in> set required_int_fields"
  shows "int_field tx k = Inr (projr (int_field tx k)) \<and> map_of c k = Some (projr (int_field tx k))"
proof -
  have "\<exists>d. canonical_tx tx = Inr d" using c by blast
  then have ok: "\<not> isl (int_field tx k)"
    using k unfolding canonical_tx_def build_Inr_iff required_int_fields_def by auto
  have "\<forall>k\<in>set required_int_fields. map_of c k = Some (projr (int_field tx k))"
    unfolding required_int_fields_def
    by (simp add: build_map_of [OF c [unfolded canonical_tx_def]])
  then have "map_of c k = Some (projr (int_field tx k))" using k by blast
  then show ?thesis using ok not_isl_collapse by blast
qed

lemma canonical_tx_optional:
  assumes c: "canonical_tx tx = Inr c" and k: "k \<in> set optional_int_fields"
  shows "opt_int_field tx k = Inr (projr (opt_int_field tx k))
         \<and> map_of c k = Some (projr (opt_int_field tx k))"
proof -
  have "\<exists>d. canonical_tx tx = Inr d" using c by blast
  then have ok: "\<not> isl (opt_int_field tx k)"
    using k unfolding canonical_tx_def build_Inr_iff optional_int_fields_def by auto
  have "\<forall>k\<in>set optional_int_fields. map_of c k = Some (projr (opt_int_field tx k))"
    unfolding optional_int_fields_def
    by (simp add: build_map_of [OF c [unfolded canonical_tx_def]])
  then have "map_of c k = Some (projr (opt_int_field tx k))" using k by blast
  then show ?thesis using ok not_isl_collapse by blast
qed

lemma int_entry_present:
  assumes k: "k \<in> set required_int_fields \<union> set optional_int_fields"
      and v: "map_of tx k = Some v" and nn: "v \<noteq> PNone"
      and c: "canonical_tx tx = Inr c"
  shows "\<exists>n. py_int v = Inr n \<and> map_of c k = Some (PInt n)"
proof -
  have g: "get tx k = v" "get_default tx k (PInt 0) = v"
    using v by (simp_all add: get_def get_default_def)
  have "\<exists>x. int_field tx k = Inr x \<and> map_of c k = Some x"
  proof (cases "k \<in> set required_int_fields")
    case True
    then show ?thesis using canonical_tx_required [OF c] by blast
  next
    case False
    then have "k \<in> set optional_int_fields" using k by simp
    then have "opt_int_field tx k = Inr (projr (opt_int_field tx k))
         \<and> map_of c k = Some (projr (opt_int_field tx k))"
      by (rule canonical_tx_optional [OF c])
    moreover have "opt_int_field tx k = int_field tx k" using g nn by (simp add: opt_int_field_def)
    ultimately show ?thesis by metis
  qed
  then show ?thesis
    unfolding int_field_def g by (auto split: sum.splits)
qed

lemma int_entry_raises:
  assumes k: "k \<in> set required_int_fields \<union> set optional_int_fields"
      and v: "map_of tx k = Some v" and nn: "v \<noteq> PNone"
      and e: "py_int v = Inl e"
  shows "\<exists>e'. canonical_tx tx = Inl e'"
proof (cases "canonical_tx tx")
  case (Inl e')
  then show ?thesis by blast
next
  case (Inr c)
  then show ?thesis using int_entry_present [OF k v nn Inr] e by simp
qed

subsection \<open>Decimal texts and \<open>int()\<close>\<close>

lemma digit_char:
  assumes "k < 10"
  shows "is_digit (''0123456789'' ! k)" and "digit_val (''0123456789'' ! k) = k"
    and "\<not> str_space (''0123456789'' ! k)" and "\<not> bytes_space (''0123456789'' ! k)"
    and "''0123456789'' ! k \<noteq> CHR ''-''" and "''0123456789'' ! k \<noteq> CHR ''+''"
proof -
  have "k \<in> {0, 1, 2, 3, 4, 5, 6, 7, 8, 9}" using assms by auto
  then show "is_digit (''0123456789'' ! k)" and "digit_val (''0123456789'' ! k) = k"
    and "\<not> str_space (''0123456789'' ! k)" and "\<not> bytes_space (''0123456789'' ! k)"
    and "''0123456789'' ! k \<noteq> CHR ''-''" and "''0123456789'' ! k \<noteq> CHR ''+''"
    by (auto simp: is_digit_def digit_val_def str_space_def bytes_space_def)
qed

lemma scan_digits_all_digits:
  "list_all is_digit ds \<Longrightarrow> scan_digits acc ds = Some (digits_value acc ds)"
  by (induction acc ds rule: scan_digits.induct) (auto simp: digits_value_def)

lemma parse_nat_all_digits:
  "ds \<noteq> [] \<Longrightarrow> list_all is_digit ds \<Longrightarrow> parse_nat ds = Some (digits_value 0 ds)"
  by (cases ds) (auto simp: parse_nat_def scan_digits_all_digits, simp add: digits_value_def)

lemma dec_nat_props:
  "dec_nat n \<noteq> [] \<and> list_all is_digit (dec_nat n) \<and> digits_value 0 (dec_nat n) = n
   \<and> is_digit (hd (dec_nat n)) \<and> is_digit (last (dec_nat n))"
proof (induction n rule: dec_nat.induct)
  case (1 n)
  show ?case
  proof (cases "n < 10")
    case True
    then show ?thesis
      by (subst (1 2 3 4 5) dec_nat.simps) (simp add: digit_char digits_value_def)
  next
    case False
    have m: "n mod 10 < 10" by simp
    have eq: "dec_nat n = dec_nat (n div 10) @ [''0123456789'' ! (n mod 10)]"
      using False by (subst dec_nat.simps) simp
    show ?thesis
      using "1.IH" [OF False] unfolding eq
      by (simp add: digit_char [OF m] digits_value_def)
  qed
qed

lemma parse_nat_dec_nat: "parse_nat (dec_nat n) = Some n"
  using dec_nat_props [of n] by (simp add: parse_nat_all_digits)

lemma strip_id:
  assumes "s \<noteq> []" and "\<not> sp (hd s)" and "\<not> sp (last s)"
  shows "strip sp s = s"
proof -
  have "dropWhile sp s = s" using assms by (cases s) simp_all
  moreover have "dropWhile sp (rev s) = rev s"
    using assms by (cases "rev s") (simp_all add: last_rev [symmetric] hd_rev)
  ultimately show ?thesis by (simp add: strip_def)
qed

lemma is_digit_not_space: "is_digit c \<Longrightarrow> \<not> str_space c \<and> \<not> bytes_space c \<and> c \<noteq> CHR ''-'' \<and> c \<noteq> CHR ''+''"
  by (auto simp: is_digit_def str_space_def bytes_space_def Let_def)

lemma parse_int_dec_int:
  assumes sp: "sp = str_space \<or> sp = bytes_space"
      and len: "length (dec_nat (nat \<bar>i\<bar>)) \<le> int_max_str_digits"
  shows "parse_int sp (dec_int i) = Some i"
proof -
  define m where "m = nat \<bar>i\<bar>"
  have p: "dec_nat m \<noteq> []" "list_all is_digit (dec_nat m)"
      "is_digit (hd (dec_nat m))" "is_digit (last (dec_nat m))"
    using dec_nat_props [of m] by simp_all
  have len': "\<not> int_max_str_digits < length (dec_nat m)" using len by (simp add: m_def)
  have nsp: "\<not> sp (CHR ''-'')" using sp by (auto simp: str_space_def bytes_space_def)
  have dsp: "\<And>c. is_digit c \<Longrightarrow> \<not> sp c" using sp is_digit_not_space by auto
  have flt: "filter is_digit (dec_nat m) = dec_nat m"
    using p(2) by (simp add: list_all_iff)
  obtain c cs where cs: "dec_nat m = c # cs" using p(1) by (cases "dec_nat m") auto
  then have c: "is_digit c" using p(3) by simp
  have pn: "parse_nat (c # cs) = Some m" using parse_nat_dec_nat [of m] by (simp add: cs)
  have fl: "filter is_digit (c # cs) = c # cs" using flt unfolding cs .
  have ln: "\<not> int_max_str_digits < length (c # cs)" using len' unfolding cs .
  show ?thesis
  proof (cases "i < 0")
    case True
    then have d: "dec_int i = CHR ''-'' # c # cs" and i: "i = - int m"
      by (simp_all add: dec_int_def m_def cs [symmetric])
    have "strip sp (CHR ''-'' # c # cs) = CHR ''-'' # c # cs"
      using nsp p(4) dsp cs by (intro strip_id) auto
    then show ?thesis
      unfolding d parse_int_def Let_def using pn fl ln i by (simp del: filter.simps length_Cons)
  next
    case False
    then have d: "dec_int i = c # cs" and i: "i = int m"
      by (simp_all add: dec_int_def m_def cs [symmetric])
    have "strip sp (c # cs) = c # cs"
      using p dsp cs by (intro strip_id) auto
    moreover have "c \<noteq> CHR ''-''" "c \<noteq> CHR ''+''" using c is_digit_not_space by auto
    ultimately show ?thesis
      unfolding d parse_int_def Let_def using pn fl ln i by (simp del: filter.simps length_Cons)
  qed
qed

lemma py_int_decimal:
  "length (dec_nat (nat \<bar>i\<bar>)) \<le> int_max_str_digits \<Longrightarrow>
     py_int (PStr (dec_int i)) = Inr i \<and> py_int (PBytes (dec_int i)) = Inr i"
  by (simp add: py_int_def parse_int_dec_int)

lemma strip_keeps_prefix:
  assumes "\<not> sp c" and "\<not> sp d"
  shows "\<exists>r. strip sp (c # d # s) = c # d # r"
proof -
  have front: "dropWhile sp (c # d # s) = c # d # s" using assms by simp
  have "\<exists>zs. dropWhile sp (rev s @ [d, c]) = zs @ [d, c]"
  proof (cases "\<forall>x\<in>set s. sp x")
    case True
    then have "dropWhile sp (rev s @ [d, c]) = [] @ [d, c]"
      using assms by (simp add: dropWhile_append)
    then show ?thesis by blast
  next
    case False
    then have "dropWhile sp (rev s @ [d, c]) = dropWhile sp (rev s) @ [d, c]"
      by (simp add: dropWhile_append)
    then show ?thesis by blast
  qed
  then obtain zs where "dropWhile sp (rev s @ [d, c]) = zs @ [d, c]" by blast
  then have "strip sp (c # d # s) = c # d # rev zs" using front by (simp add: strip_def)
  then show ?thesis by blast
qed

lemma parse_int_hex:
  assumes "\<not> sp (CHR ''0'')" and "\<not> sp (CHR ''x'')"
  shows "parse_int sp (CHR ''0'' # CHR ''x'' # s) = None"
proof -
  obtain r where r: "strip sp (CHR ''0'' # CHR ''x'' # s) = CHR ''0'' # CHR ''x'' # r"
    using strip_keeps_prefix [OF assms, of s] by blast
  have "scan_digits 0 (CHR ''x'' # r) = None"
    by (cases r) (simp_all add: is_digit_def)
  then show ?thesis
    by (simp add: parse_int_def r parse_nat_def is_digit_def digit_val_def)
qed

lemma py_int_hex:
  "py_int (PStr (''0x'' @ s)) = Inl (ValueError (PStr (''0x'' @ s)))"
  "py_int (PBytes (''0x'' @ s)) = Inl (ValueError (PBytes (''0x'' @ s)))"
  by (simp_all add: py_int_def parse_int_hex str_space_def bytes_space_def)

subsection \<open>Serialization and dict equality\<close>

lemma collect_Inr_iff: "(\<exists>xs. collect rs = Inr xs) \<longleftrightarrow> list_all (\<lambda>r. \<exists>t. r = Inr t) rs"
  by (induction rs rule: collect.induct) (auto split: sum.splits)

lemma json_val_serializable: "(\<exists>t. json_val v = Inr t) \<longleftrightarrow> serializable v"
proof (induction v)
  case (PList vs)
  have "(\<exists>ts. collect (map json_val vs) = Inr ts) \<longleftrightarrow> list_all serializable vs"
    unfolding collect_Inr_iff list_all_iff using PList by simp
  then show ?case by (auto split: sum.splits)
qed auto

lemma json_item_serializable: "(\<exists>t. json_item kv = Inr t) \<longleftrightarrow> serializable (snd kv)"
  using json_val_serializable [of "snd kv"]
  by (cases "json_val (snd kv)") (auto simp: json_item_def)

lemma json_dumps_serializable:
  "(\<exists>s. json_dumps d = Inr s) \<longleftrightarrow> list_all (\<lambda>kv. serializable (snd kv)) d"
proof -
  have "(\<exists>ts. collect (map json_item (sort_key fst d)) = Inr ts)
          \<longleftrightarrow> list_all (\<lambda>kv. serializable (snd kv)) d"
    unfolding collect_Inr_iff by (simp add: list_all_iff json_item_serializable)
  then show ?thesis by (auto simp: json_dumps_def split: sum.splits)
qed

lemma keccak_json_serializable:
  "list_all (\<lambda>kv. serializable (snd kv)) d \<Longrightarrow> \<exists>r. keccak_json keccak d = Inr r"
  using json_dumps_serializable [of d] by (auto simp: keccak_json_def)

lemma filter_key_distinct:
  "distinct (map f l) \<Longrightarrow> k \<in> set l \<Longrightarrow> filter (\<lambda>x. f x = f k) l = [k]"
proof (induction l)
  case (Cons x l)
  show ?case
  proof (cases "x = k")
    case True
    with Cons.prems have "f k \<notin> f ` set l" by simp
    then have "\<forall>y\<in>set l. f y \<noteq> f k" by (metis imageI)
    then have "filter (\<lambda>x. f x = f k) l = []" by (simp add: filter_empty_conv)
    with True show ?thesis by simp
  next
    case False
    with Cons.prems have "k \<in> set l" "f x \<noteq> f k" by auto
    with Cons show ?thesis by simp
  qed
qed simp

lemma sort_key_same_items:
  assumes da: "distinct (map fst a)" and db: "distinct (map fst b)" and eq: "set a = set b"
  shows "sort_key fst a = sort_key fst (b :: (('k :: linorder) \<times> 'v) list)"
proof (rule properties_for_sort_key)
  have "distinct a" "distinct b" using da db by (simp_all add: distinct_map)
  then show "mset (sort_key fst b) = mset a"
    using eq by (simp add: set_eq_iff_mset_eq_distinct)
next
  fix k assume "k \<in> set (sort_key fst b)"
  then have kb: "k \<in> set b" and ka: "k \<in> set a" using eq by simp_all
  have "filter (\<lambda>x. fst x = fst k) (sort_key fst b) = filter (\<lambda>x. fst x = fst k) b"
    by (rule sort_key_stable)
  also have "\<dots> = [k]" using db kb by (rule filter_key_distinct)
  also have "\<dots> = filter (\<lambda>x. fst x = fst k) a" using da ka by (rule filter_key_distinct [symmetric])
  finally have "filter (\<lambda>x. fst x = fst k) (sort_key fst b) = filter (\<lambda>x. fst x = fst k) a" .
  then show "filter (\<lambda>x. fst k = fst x) (sort_key fst b) = filter (\<lambda>x. fst k = fst x) a"
    by (simp add: eq_commute)
next
  show "sorted (map fst (sort_key fst b))" by (rule sorted_sort_key)
qed

lemma dict_eq_same_items:
  assumes "is_dict a" and "is_dict b" and "dict_eq a b"
  shows "set a = set b"
proof -
  have da: "distinct a" and db: "distinct b"
    using assms by (simp_all add: is_dict_def distinct_map)
  have "set a \<subseteq> set b"
  proof
    fix kv assume "kv \<in> set a"
    then have "map_of b (fst kv) = Some (snd kv)"
      using assms(3) by (simp add: dict_eq_def list_all_iff)
    then have "(fst kv, snd kv) \<in> set b" by (rule map_of_SomeD)
    then show "kv \<in> set b" by simp
  qed
  moreover have "card (set a) = card (set b)"
    using da db assms(3) by (simp add: distinct_card dict_eq_def)
  ultimately show ?thesis by (simp add: card_subset_eq)
qed

lemma dict_eq_json_dumps:
  assumes "is_dict a" and "is_dict b" and "dict_eq a b"
  shows "json_dumps a = json_dumps b"
proof -
  have "sort_key fst a = sort_key fst b"
    using assms dict_eq_same_items [OF assms] by (intro sort_key_same_items) (simp_all add: is_dict_def)
  then show ?thesis by (simp add: json_dumps_def)
qed

lemma dict_eq_iff_map_of:
  assumes "is_dict a" and "is_dict b"
  shows "dict_eq a b \<longleftrightarrow> map_of a = map_of b"
proof
  assume "dict_eq a b"
  then have "set a = set b" using assms by (intro dict_eq_same_items)
  then show "map_of a = map_of b"
    using assms by (simp add: is_dict_def map_of_inject_set)
next
  assume m: "map_of a = map_of b"
  then have s: "set a = set b" using assms by (simp add: is_dict_def map_of_inject_set)
  have "distinct a" "distinct b" using assms by (simp_all add: is_dict_def distinct_map)
  then have "length a = length b" using s by (metis distinct_card)
  moreover have "list_all (\<lambda>kv. map_of b (fst kv) = Some (snd kv)) a"
    using assms(1) m [symmetric] by (auto simp: list_all_iff is_dict_def)
  ultimately show "dict_eq a b" by (simp add: dict_eq_def)
qed

subsection \<open>Records that differ in one field\<close>

lemma collect_append:
  "collect (xs @ ys) = (case collect xs of Inl e \<Rightarrow> Inl e
     | Inr a \<Rightarrow> (case collect ys of Inl e \<Rightarrow> Inl e | Inr b \<Rightarrow> Inr (a @ b)))"
  by (induction xs rule: collect.induct) (auto split: sum.splits)

lemma collect_cons:
  "collect (r # rs) = (case r of Inl e \<Rightarrow> Inl e
     | Inr x \<Rightarrow> (case collect rs of Inl e \<Rightarrow> Inl e | Inr xs \<Rightarrow> Inr (x # xs)))"
  by (cases r) simp_all

lemma join_cons: "join sep (x # q) = x @ (if q = [] then [] else sep @ join sep q)"
  by (cases q) simp_all

lemma join_mid: "\<exists>l r. \<forall>x. join sep (p @ [x] @ q) = l @ x @ r"
proof (induction p)
  case Nil
  show ?case
    by (intro exI [of _ "[]"] exI [of _ "if q = [] then [] else sep @ join sep q"])
       (simp add: join_cons)
next
  case (Cons z p)
  then obtain l r where "\<forall>x. join sep (p @ [x] @ q) = l @ x @ r" by blast
  then show ?case
    by (intro exI [of _ "z @ sep @ l"] exI [of _ r]) (simp add: join_cons)
qed

lemma join_mid_neq:
  assumes "x \<noteq> y"
  shows "join sep (p @ [x] @ q) \<noteq> join sep (p @ [y] @ q)"
proof -
  obtain l r where "\<forall>x. join sep (p @ [x] @ q) = l @ x @ r" using join_mid by blast
  then show ?thesis using assms by simp
qed

lemma sort_key_unique:
  assumes dy: "distinct (map fst ys)" and sy: "sorted (map fst ys)"
      and db: "distinct (map fst b)" and eq: "set ys = set b"
  shows "sort_key fst b = (ys :: (('k :: linorder) \<times> 'v) list)"
proof (rule properties_for_sort_key)
  have "distinct ys" "distinct b" using dy db by (simp_all add: distinct_map)
  then show "mset ys = mset b"
    using eq by (simp add: set_eq_iff_mset_eq_distinct)
next
  fix k assume ky: "k \<in> set ys"
  then have kb: "k \<in> set b" using eq by simp
  have "filter (\<lambda>x. fst x = fst k) ys = [k]" using dy ky by (rule filter_key_distinct)
  also have "\<dots> = filter (\<lambda>x. fst x = fst k) b" using db kb by (rule filter_key_distinct [symmetric])
  finally show "filter (\<lambda>x. fst k = fst x) ys = filter (\<lambda>x. fst k = fst x) b"
    by (simp add: eq_commute)
next
  show "sorted (map fst ys)" by (rule sy)
qed

lemma distinct_keys_sort_key:
  "distinct (map fst d) \<Longrightarrow> distinct (map fst (sort_key fst d))"
proof -
  assume d: "distinct (map fst d)"
  have "mset (map fst (sort_key fst d)) = mset (map fst d)" by simp
  then show ?thesis using d by (metis mset_eq_imp_distinct_iff)
qed

text \<open>Two dicts that differ in the value of one key only: the sorted items differ at one place.\<close>

lemma sorted_items_one_key:
  assumes da: "is_dict a" and db: "is_dict b"
      and va: "map_of a n = Some x" and vb: "map_of b n = Some y"
      and rest: "\<forall>k. k \<noteq> n \<longrightarrow> map_of a k = map_of b k"
  shows "\<exists>pre post. sort_key fst a = pre @ [(n, x)] @ post \<and> sort_key fst b = pre @ [(n, y)] @ post"
proof -
  let ?A = "sort_key fst a"
  have dA: "distinct (map fst ?A)" using da by (simp add: is_dict_def distinct_keys_sort_key)
  have "(n, x) \<in> set ?A" using va by (simp add: map_of_SomeD)
  then obtain pre post where A: "?A = pre @ [(n, x)] @ post"
    by (metis split_list append_Cons append_Nil)
  have npre: "n \<notin> fst ` set pre" and npost: "n \<notin> fst ` set post"
    using dA unfolding A by auto
  let ?B = "pre @ [(n, y)] @ post"
  have dB: "distinct (map fst ?B)" using dA unfolding A by simp
  have sB: "sorted (map fst ?B)" using sorted_sort_key [of fst a] unfolding A by simp
  have "set ?B = set b"
  proof (rule set_eqI)
    fix kv :: "string \<times> pyval"
    obtain k v where kv: "kv = (k, v)" by (cases kv)
    have inb: "(k, v) \<in> set b \<longleftrightarrow> map_of b k = Some v"
      using db by (simp add: is_dict_def)
    have ina: "(k, v) \<in> set a \<longleftrightarrow> map_of a k = Some v"
      using da by (simp add: is_dict_def)
    have setA: "set a = set pre \<union> {(n, x)} \<union> set post"
      using arg_cong [OF A, of set] by auto
    show "kv \<in> set ?B \<longleftrightarrow> kv \<in> set b"
    proof (cases "k = n")
      case True
      then have "(k, v) \<in> set ?B \<longleftrightarrow> v = y" using npre npost by (auto simp: image_iff)
      then show ?thesis using True vb inb kv by auto
    next
      case False
      then have "(k, v) \<in> set ?B \<longleftrightarrow> (k, v) \<in> set a" unfolding setA by auto
      then show ?thesis using False rest ina inb kv by simp
    qed
  qed
  then have "sort_key fst b = ?B" using dB sB db by (intro sort_key_unique) (simp_all add: is_dict_def)
  then show ?thesis using A by blast
qed

lemma json_dumps_one_key:
  assumes da: "is_dict a" and db: "is_dict b"
      and va: "map_of a n = Some x" and vb: "map_of b n = Some y"
      and rest: "\<forall>k. k \<noteq> n \<longrightarrow> map_of a k = map_of b k"
      and sa: "json_dumps a = Inr ta" and sb: "json_dumps b = Inr tb"
      and ne: "json_val x \<noteq> json_val y"
  shows "ta \<noteq> tb"
proof -
  obtain pre post where A: "sort_key fst a = pre @ [(n, x)] @ post"
    and B: "sort_key fst b = pre @ [(n, y)] @ post"
    using sorted_items_one_key [OF da db va vb rest] by blast
  obtain tsa where ca: "collect (map json_item (sort_key fst a)) = Inr tsa"
    and ta: "ta = ''{'' @ join '','' tsa @ ''}''"
    using sa by (auto simp: json_dumps_def split: sum.splits)
  obtain tsb where cb: "collect (map json_item (sort_key fst b)) = Inr tsb"
    and tb: "tb = ''{'' @ join '','' tsb @ ''}''"
    using sb by (auto simp: json_dumps_def split: sum.splits)
  obtain p ix q where pa: "collect (map json_item pre) = Inr p" and xa: "json_item (n, x) = Inr ix"
    and qa: "collect (map json_item post) = Inr q" and tsa: "tsa = p @ [ix] @ q"
    using ca unfolding A by (auto simp: collect_append collect_cons split: sum.splits)
  obtain iy where ya: "json_item (n, y) = Inr iy" and tsb: "tsb = p @ [iy] @ q"
    using cb pa qa unfolding B by (auto simp: collect_append collect_cons split: sum.splits)
  have "ix \<noteq> iy"
    using xa ya ne by (auto simp: json_item_def split: sum.splits)
  then have "join '','' tsa \<noteq> join '','' tsb" unfolding tsa tsb by (rule join_mid_neq)
  then show ?thesis by (simp add: ta tb)
qed

lemma filter_union_keys:
  "filter P (union_keys a b) = sorted_list_of_set {k \<in> fst ` set a \<union> fst ` set b. P k}"
proof (rule sorted_distinct_set_unique)
  show "sorted (filter P (union_keys a b))"
    unfolding union_keys_def by (rule sorted_wrt_filter) simp
  show "distinct (filter P (union_keys a b))" by (simp add: union_keys_def)
  show "sorted (sorted_list_of_set {k \<in> fst ` set a \<union> fst ` set b. P k})" by simp
  show "distinct (sorted_list_of_set {k \<in> fst ` set a \<union> fst ` set b. P k})" by simp
  show "set (filter P (union_keys a b)) = set (sorted_list_of_set {k \<in> fst ` set a \<union> fst ` set b. P k})"
    by (auto simp: union_keys_def)
qed

lemma diff_fields_sorted_set:
  "diff_fields a b = map (\<lambda>k. (k, get a k, get b k))
     (sorted_list_of_set {k \<in> fst ` set a \<union> fst ` set b. get a k \<noteq> get b k})"
  by (simp add: diff_fields_def filter_union_keys)

lemma diff_fields_one_key:
  assumes va: "map_of a n = Some x" and vb: "map_of b n = Some y" and ne: "x \<noteq> y"
      and rest: "\<forall>k. k \<noteq> n \<longrightarrow> map_of a k = map_of b k"
  shows "diff_fields a b = [(n, x, y)]"
proof -
  have "{k \<in> fst ` set a \<union> fst ` set b. get a k \<noteq> get b k} = {n}"
  proof (rule set_eqI)
    fix k
    have "n \<in> fst ` set a" using va by (metis map_of_SomeD fst_conv imageI)
    moreover have "get a n \<noteq> get b n" using va vb ne by (simp add: get_def)
    moreover have "k \<noteq> n \<Longrightarrow> get a k = get b k" using rest by (simp add: get_def)
    ultimately show "k \<in> {k \<in> fst ` set a \<union> fst ` set b. get a k \<noteq> get b k} \<longleftrightarrow> k \<in> {n}"
      by auto
  qed
  then show ?thesis using va vb by (simp add: diff_fields_sorted_set get_def)
qed

lemma json_val_5_6: "json_val (PInt 5) \<noteq> json_val (PInt 6)"
  by (simp add: dec_int_def dec_nat.simps int_max_str_digits_def)

subsection \<open>Records that \<open>json.dumps\<close> accepts\<close>

text \<open>
  On dicts without an \<open>error\<close> key whose values \<open>json.dumps\<close> accepts, \<open>compare_txs\<close>
  returns: equal dicts have one digest, whatever their insertion order, and unequal dicts
  get the sorted list of the keys on which \<open>get\<close> differs, each with both values.
\<close>

lemma compare_txs_serializable_match:
  assumes "is_dict a" and "is_dict b"
      and "\<not> has_key a ''error''" and "\<not> has_key b ''error''"
      and "list_all (\<lambda>kv. serializable (snd kv)) a"
      and "dict_eq a b"
  shows "\<exists>root. keccak_json keccak a = Inr root \<and> keccak_json keccak b = Inr root
           \<and> compare_txs keccak a b = Inr (True, Match root)"
proof -
  obtain root where r: "keccak_json keccak a = Inr root"
    using keccak_json_serializable [OF assms(5)] by blast
  have "json_dumps a = json_dumps b" using assms(1,2,6) by (rule dict_eq_json_dumps)
  then have "keccak_json keccak b = Inr root" using r by (simp add: keccak_json_def)
  moreover have "compare_txs keccak a b = Inr (True, Match root)"
    using assms(3,4,6) r by (simp add: compare_txs_def)
  ultimately show ?thesis using r by blast
qed

lemma compare_txs_serializable_mismatch:
  assumes da: "is_dict a" and db: "is_dict b"
      and ea: "\<not> has_key a ''error''" and eb: "\<not> has_key b ''error''"
      and sa: "list_all (\<lambda>kv. serializable (snd kv)) a"
      and sb: "list_all (\<lambda>kv. serializable (snd kv)) b"
      and ne: "\<not> dict_eq a b"
  shows "\<exists>rootA rootB.
           keccak_json keccak a = Inr rootA \<and> keccak_json keccak b = Inr rootB
         \<and> compare_txs keccak a b = Inr (False, Mismatch rootA rootB (diff_fields a b))
         \<and> diff_fields a b = map (\<lambda>k. (k, get a k, get b k))
              (sorted_list_of_set {k \<in> fst ` set a \<union> fst ` set b. get a k \<noteq> get b k})
         \<and> (map_of a ''nonce'' = Some (PInt 5) \<and> map_of b ''nonce'' = Some (PInt 6)
              \<and> (\<forall>k. k \<noteq> ''nonce'' \<longrightarrow> map_of a k = map_of b k)
             \<longrightarrow> diff_fields a b = [(''nonce'', PInt 5, PInt 6)]
                 \<and> json_dumps a \<noteq> json_dumps b)"
proof -
  obtain ta where ta: "json_dumps a = Inr ta"
    using sa json_dumps_serializable [of a] by blast
  obtain tb where tb: "json_dumps b = Inr tb"
    using sb json_dumps_serializable [of b] by blast
  let ?ra = "''0x'' @ keccak ta" and ?rb = "''0x'' @ keccak tb"
  have ra: "keccak_json keccak a = Inr ?ra" and rb: "keccak_json keccak b = Inr ?rb"
    using ta tb by (simp_all add: keccak_json_def)
  have cmp: "compare_txs keccak a b = Inr (False, Mismatch ?ra ?rb (diff_fields a b))"
    using ea eb ne ra rb by (simp add: compare_txs_def)
  have ex: "diff_fields a b = [(''nonce'', PInt 5, PInt 6)] \<and> json_dumps a \<noteq> json_dumps b"
    if h: "map_of a ''nonce'' = Some (PInt 5) \<and> map_of b ''nonce'' = Some (PInt 6)
              \<and> (\<forall>k. k \<noteq> ''nonce'' \<longrightarrow> map_of a k = map_of b k)"
  proof -
    have "diff_fields a b = [(''nonce'', PInt 5, PInt 6)]"
      using h by (intro diff_fields_one_key) simp_all
    moreover have "ta \<noteq> tb"
      using h by (intro json_dumps_one_key [OF da db _ _ _ ta tb json_val_5_6]) blast+
    ultimately show ?thesis using ta tb by simp
  qed
  show ?thesis
    using ra rb cmp ex diff_fields_sorted_set [of a b] by blast
qed

subsection \<open>Records with a \<open>bytes\<close> value\<close>

lemma canonical_tx_bytes: "canonical_tx (bytes_tx n) = Inr (bytes_canonical n)"
  by (simp add: canonical_tx_def int_field_def opt_int_field_def get_def get_default_def
      py_int_def hash_field_def bytes_tx_def bytes_canonical_def)

lemma sorted_bytes_canonical:
  "sort_key fst (bytes_canonical n) =
     [(''accessList'', PNone), (''blockNumber'', PNone), (''chainId'', PNone), (''from'', PNone),
      (''gas'', PInt 0), (''gasPrice'', PNone), (''hash'', PNone),
      (''input'', PBytes [CHR 0xa9, CHR 0x05, CHR 0x9c, CHR 0xbb]),
      (''maxFeePerGas'', PNone), (''maxPriorityFeePerGas'', PNone), (''nonce'', PInt n),
      (''r'', PInt 0), (''s'', PInt 0), (''to'', PNone), (''transactionIndex'', PNone),
      (''type'', PNone), (''v'', PInt 0), (''value'', PInt 0)]"
  by (simp add: bytes_canonical_def)

lemma keccak_json_bytes:
  "keccak_json keccak (bytes_canonical n)
     = Inl (TypeError (PBytes [CHR 0xa9, CHR 0x05, CHR 0x9c, CHR 0xbb]))"
  by (simp add: keccak_json_def json_dumps_def sorted_bytes_canonical json_item_def
      dec_nat.simps int_max_str_digits_def)

subsection \<open>Records on which \<open>canonical_tx\<close> returns\<close>

lemma canonical_tx_returns:
  assumes req: "\<forall>k\<in>set required_int_fields. \<not> has_key tx k \<or> (\<exists>n. py_int (get tx k) = Inr n)"
      and opt: "\<forall>k\<in>set optional_int_fields. get tx k = PNone \<or> (\<exists>n. py_int (get tx k) = Inr n)"
  shows "\<exists>c. canonical_tx tx = Inr c \<and> map fst c = canonical_keys"
proof -
  have "\<exists>c. canonical_tx tx = Inr c"
    unfolding canonical_tx_def build_Inr_iff
    using req opt
    by (simp add: required_int_fields_def optional_int_fields_def int_field_ok opt_int_field_ok)
  then show ?thesis using canonical_tx_keys by blast
qed

section \<open>Results\<close>

text \<open>
  C1. The hash of a record that holds it as bytes is rendered by \<open>bytes.hex()\<close>, which
  writes no \<open>0x\<close> prefix: the four bytes de ad be ef become \<open>deadbeef\<close>, while the
  same hash held as the string \<open>0xdeadbeef\<close> stays as it is, so the two canonical
  hash fields differ.
\<close>

theorem canonical_tx_hash_bytes_no_prefix:
  "map_sum id (\<lambda>c. get c ''hash'')
     (canonical_tx [(''hash'', PBytes [CHR 0xde, CHR 0xad, CHR 0xbe, CHR 0xef])]) =
       Inr (PStr ''deadbeef'')
   \<and> map_sum id (\<lambda>c. get c ''hash'') (canonical_tx [(''hash'', PStr ''0xdeadbeef'')]) =
       Inr (PStr ''0xdeadbeef'')"
  by (simp add: canonical_tx_def hash_field_def get_def get_default_def int_field_def
      opt_int_field_def py_int_def bytes_hex_def hex_byte_def hex_digit_def)

text \<open>
  C2. \<open>canonical_tx\<close> passes \<open>input\<close> through as it is, and \<open>json.dumps\<close> refuses
  \<open>bytes\<close>: for the canonical form of a record whose \<open>input\<close> is four bytes, compared with
  itself, \<open>compare_txs\<close> finds the two dicts equal and then raises \<open>TypeError\<close> in
  \<open>keccak_json\<close> instead of returning \<open>(True, {"root": ..})\<close>.
\<close>

theorem compare_txs_equal_bytes_raises:
  "canonical_tx (bytes_tx 5) = Inr (bytes_canonical 5)
   \<and> map_of (bytes_canonical 5) ''error'' = None
   \<and> dict_eq (bytes_canonical 5) (bytes_canonical 5)
   \<and> compare_txs keccak (bytes_canonical 5) (bytes_canonical 5)
       = Inl (TypeError (PBytes [CHR 0xa9, CHR 0x05, CHR 0x9c, CHR 0xbb]))"
proof -
  have e: "map_of (bytes_canonical 5) ''error'' = None" by (simp add: bytes_canonical_def)
  have d: "dict_eq (bytes_canonical 5) (bytes_canonical 5)"
    by (simp add: dict_eq_def bytes_canonical_def)
  have "compare_txs keccak (bytes_canonical 5) (bytes_canonical 5)
       = Inl (TypeError (PBytes [CHR 0xa9, CHR 0x05, CHR 0x9c, CHR 0xbb]))"
    using e d by (simp add: compare_txs_def has_key_def keccak_json_bytes)
  then show ?thesis using e d canonical_tx_bytes by simp
qed

text \<open>
  C3. The canonical forms of two records that differ in \<open>nonce\<close> only, 5 against 6, and
  whose \<open>input\<close> is four bytes: the dicts are not equal and the field differences are
  \<open>{"nonce": {"a": 5, "b": 6}}\<close>, but \<open>compare_txs\<close> raises \<open>TypeError\<close> in
  \<open>keccak_json\<close> instead of returning \<open>(False, {"rootA": .., "rootB": .., "fieldDiffs": ..})\<close>.
\<close>

theorem compare_txs_unequal_bytes_raises:
  "canonical_tx (bytes_tx 5) = Inr (bytes_canonical 5)
   \<and> canonical_tx (bytes_tx 6) = Inr (bytes_canonical 6)
   \<and> map_of (bytes_canonical 5) ''error'' = None
   \<and> map_of (bytes_canonical 6) ''error'' = None
   \<and> \<not> dict_eq (bytes_canonical 5) (bytes_canonical 6)
   \<and> diff_fields (bytes_canonical 5) (bytes_canonical 6) = [(''nonce'', PInt 5, PInt 6)]
   \<and> compare_txs keccak (bytes_canonical 5) (bytes_canonical 6)
       = Inl (TypeError (PBytes [CHR 0xa9, CHR 0x05, CHR 0x9c, CHR 0xbb]))"
proof -
  have e: "map_of (bytes_canonical 5) ''error'' = None" "map_of (bytes_canonical 6) ''error'' = None"
    by (simp_all add: bytes_canonical_def)
  have d: "\<not> dict_eq (bytes_canonical 5) (bytes_canonical 6)"
    by (simp add: dict_eq_def bytes_canonical_def)
  have f: "diff_fields (bytes_canonical 5) (bytes_canonical 6) = [(''nonce'', PInt 5, PInt 6)]"
    by (rule diff_fields_one_key) (simp_all add: bytes_canonical_def)
  have "compare_txs keccak (bytes_canonical 5) (bytes_canonical 6)
       = Inl (TypeError (PBytes [CHR 0xa9, CHR 0x05, CHR 0x9c, CHR 0xbb]))"
    using e d by (simp add: compare_txs_def has_key_def keccak_json_bytes)
  then show ?thesis using e d f canonical_tx_bytes by simp
qed

text \<open>
  C4. When either dict has an \<open>error\<close> key, \<open>compare_txs\<close> returns
  \<open>(False, {"errorA": tx_a.get("error"), "errorB": tx_b.get("error")})\<close>, whatever the
  hash function is and whether or not the records could be serialized. When provider A
  returns \<open>None\<close> and provider B a record that \<open>canonical_tx\<close> accepts, \<open>errorA\<close> is
  \<open>transaction not found\<close> and \<open>errorB\<close> is \<open>None\<close>.
\<close>

theorem compare_txs_fetch_failure:
  assumes "has_key tx_a ''error'' \<or> has_key tx_b ''error''"
  shows "compare_txs keccak tx_a tx_b = Inr (False, FetchFailure (get tx_a ''error'') (get tx_b ''error''))
     \<and> (\<forall>str_e txh tx c. canonical_tx tx = Inr c \<longrightarrow>
          compare_txs keccak (fetch_tx str_e (\<lambda>h. Inr None) txh) (fetch_tx str_e (\<lambda>h. Inr (Some tx)) txh)
            = Inr (False, FetchFailure (PStr ''transaction not found'') PNone))"
  using assms
  by (auto simp: compare_txs_def fetch_tx_def has_key_def get_error_canonical)
     (simp_all add: get_def)

text \<open>
  Provider A returns \<open>None\<close> and provider B the empty record, whose canonical form has
  every field at its default.
\<close>

theorem compare_txs_fetch_failure_witness:
  "has_key (fetch_tx (\<lambda>e. []) (\<lambda>h. Inr None) []) ''error''
   \<and> canonical_tx [] = Inr empty_canonical
   \<and> compare_txs (\<lambda>s. s) (fetch_tx (\<lambda>e. []) (\<lambda>h. Inr None) []) (fetch_tx (\<lambda>e. []) (\<lambda>h. Inr (Some [])) [])
       = Inr (False, FetchFailure (PStr ''transaction not found'') PNone)"
proof -
  have h: "has_key (fetch_tx (\<lambda>e. []) (\<lambda>h. Inr None) []) ''error''"
    by (simp add: fetch_tx_def has_key_def)
  from compare_txs_fetch_failure [of "fetch_tx (\<lambda>e. []) (\<lambda>h. Inr None) []" "[]" "\<lambda>s. s"] h
  show ?thesis using canonical_tx_empty by blast
qed

text \<open>
  C5, as the claim states it, fails: a \<open>nonce\<close> given as the hex-encoded string \<open>0x10\<close>
  is not converted, it makes \<open>canonical_tx\<close> raise.
\<close>

theorem canonical_tx_hex_nonce_raises:
  "canonical_tx [(''nonce'', PStr ''0x10'')] = Inl (ValueError (PStr ''0x10''))"
  by (simp add: canonical_tx_def int_field_def get_default_def py_int_def parse_int_def strip_def
      str_space_def parse_nat_def is_digit_def digit_val_def hash_field_def get_def)

text \<open>
  C5, amended. Let an integer field be present with a value \<open>v\<close> that is a native integer
  or a string. When \<open>canonical_tx\<close> returns, the field holds exactly the integer \<open>int(v)\<close>.
  When \<open>int(v)\<close> raises, \<open>canonical_tx\<close> raises and \<open>fetch_tx\<close> returns the dict
  \<open>{"error": str(e)}\<close> for that provider. \<open>int\<close> keeps a native integer as it is, reads
  the decimal text of any integer within the digit limit back as that integer, and raises
  \<open>ValueError\<close> on every string that starts with \<open>0x\<close>.
\<close>

theorem canonical_tx_int_conversion:
  assumes k: "k \<in> set required_int_fields \<union> set optional_int_fields"
      and v: "map_of tx k = Some v"
      and ty: "(\<exists>n. v = PInt n) \<or> (\<exists>s. v = PStr s)"
  shows "(\<forall>c. canonical_tx tx = Inr c \<longrightarrow> (\<exists>n. py_int v = Inr n \<and> map_of c k = Some (PInt n)))
       \<and> (\<forall>e. py_int v = Inl e \<longrightarrow>
             (\<exists>e'. canonical_tx tx = Inl e'
                  \<and> fetch_tx str_e (\<lambda>h. Inr (Some tx)) txh = [(''error'', PStr (str_e e'))]))
       \<and> (\<forall>n. v = PInt n \<longrightarrow> py_int v = Inr n)
       \<and> (\<forall>i. length (dec_nat (nat \<bar>i\<bar>)) \<le> int_max_str_digits \<and> v = PStr (dec_int i)
               \<longrightarrow> py_int v = Inr i)
       \<and> (\<forall>s. v = PStr (''0x'' @ s) \<longrightarrow> py_int v = Inl (ValueError v))"
proof -
  have nn: "v \<noteq> PNone" using ty by auto
  show ?thesis
  proof (intro conjI allI impI)
    fix c assume "canonical_tx tx = Inr c"
    then show "\<exists>n. py_int v = Inr n \<and> map_of c k = Some (PInt n)"
      by (rule int_entry_present [OF k v nn])
  next
    fix e assume "py_int v = Inl e"
    then obtain e' where "canonical_tx tx = Inl e'" using int_entry_raises [OF k v nn] by blast
    then show "\<exists>e'. canonical_tx tx = Inl e'
        \<and> fetch_tx str_e (\<lambda>h. Inr (Some tx)) txh = [(''error'', PStr (str_e e'))]"
      by (simp add: fetch_tx_def)
  next
    fix n assume "v = PInt n"
    then show "py_int v = Inr n" by (simp add: py_int_def)
  next
    fix i assume "length (dec_nat (nat \<bar>i\<bar>)) \<le> int_max_str_digits \<and> v = PStr (dec_int i)"
    then show "py_int v = Inr i" using py_int_decimal [of i] by auto
  next
    fix s assume "v = PStr (''0x'' @ s)"
    then show "py_int v = Inl (ValueError v)" using py_int_hex(1) [of s] by simp
  qed
qed

text \<open>The \<open>nonce\<close> of the record \<open>partial_tx\<close> is the string \<open>7\<close>.\<close>

theorem canonical_tx_int_conversion_witness:
  "canonical_tx partial_tx = Inr partial_canonical
   \<and> py_int (PStr ''7'') = Inr 7
   \<and> map_of partial_canonical ''nonce'' = Some (PInt 7)"
proof -
  have k: "''nonce'' \<in> set required_int_fields \<union> set optional_int_fields"
    by (simp add: required_int_fields_def)
  have v: "map_of partial_tx ''nonce'' = Some (PStr ''7'')" by (simp add: partial_tx_def)
  have ty: "(\<exists>n. PStr ''7'' = PInt n) \<or> (\<exists>s. PStr ''7'' = PStr s)" by simp
  from canonical_tx_int_conversion [OF k v ty] canonical_tx_partial
  have "\<exists>n. py_int (PStr ''7'') = Inr n \<and> map_of partial_canonical ''nonce'' = Some (PInt n)"
    by blast
  then show ?thesis using canonical_tx_partial py_int_7 by simp
qed



text \<open>
  C7. A record whose \<open>nonce\<close> is \<open>None\<close> makes \<open>canonical_tx\<close> raise \<open>TypeError\<close>:
  \<open>tx.get("nonce", 0)\<close> is \<open>None\<close> there and \<open>int(None)\<close> raises. A record whose
  \<open>gasPrice\<close> is \<open>None\<close>, and the empty record, are canonicalized with every field at
  its default.
\<close>

theorem canonical_tx_null_nonce_raises:
  "canonical_tx [(''nonce'', PNone)] = Inl (TypeError PNone)
   \<and> canonical_tx [(''gasPrice'', PNone)] = Inr empty_canonical
   \<and> canonical_tx [] = Inr empty_canonical"
  by (simp add: canonical_tx_def int_field_def opt_int_field_def get_def get_default_def
      py_int_def hash_field_def empty_canonical_def)

text \<open>
  C8. A first argument of 66 characters that starts with \<open>0x\<close> passes the check of
  \<open>main\<close> although its other characters are no hex digits: the providers are called and
  the process does not exit with code 2. An argument of 65 characters, and one of 66
  characters without the prefix, end the process with code 2 before any call.
\<close>

theorem main_accepts_non_hex_hash:
  "hash_ok (''0x'' @ replicate 64 (CHR ''z''))
   \<and> fst (main keccak str_e rpc_a rpc_b srcA srcB [prog, ''0x'' @ replicate 64 (CHR ''z'')]) \<noteq> []
   \<and> snd (main keccak str_e rpc_a rpc_b srcA srcB [prog, ''0x'' @ replicate 64 (CHR ''z'')]) \<noteq> Exit 2
   \<and> main keccak str_e rpc_a rpc_b srcA srcB [prog, ''0x'' @ replicate 63 (CHR ''a'')] = ([], Exit 2)
   \<and> main keccak str_e rpc_a rpc_b srcA srcB [prog, replicate 66 (CHR ''a'')] = ([], Exit 2)"
proof -
  have ok: "hash_ok (''0x'' @ replicate 64 (CHR ''z''))" by (simp add: hash_ok_def)
  have short: "\<not> hash_ok (''0x'' @ replicate 63 (CHR ''a''))" by (simp add: hash_ok_def)
  have bare: "\<not> hash_ok (replicate 66 (CHR ''a''))"
    by (simp add: hash_ok_def eval_nat_numeral)
  show ?thesis
    using ok short bare by (simp add: main_def connect_def Let_def split: sum.splits)
qed

text \<open>
  C9. When the two providers report different chain ids, no run of \<open>main\<close> calls
  \<open>get_transaction\<close>, and a run that gets as far as the chain ids (two arguments or
  more, a hash that passes the check, both providers connected) exits with code 3.
\<close>

theorem main_chain_mismatch:
  assumes "chain_id srcA = Inr ca" and "chain_id srcB = Inr cb" and "ca \<noteq> cb"
  shows "(\<forall>u h. GetTransaction u h \<notin> set (fst (main keccak str_e rpc_a rpc_b srcA srcB argv)))
     \<and> (2 \<le> length argv \<and> hash_ok (argv ! 1) \<and> is_connected srcA \<and> is_connected srcB
          \<longrightarrow> snd (main keccak str_e rpc_a rpc_b srcA srcB argv) = Exit 3)"
  using assms by (simp add: main_def connect_def Let_def)

text \<open>Provider A reports chain id 1 and provider B chain id 10.\<close>

theorem main_chain_mismatch_witness:
  "chain_id (provider 1) = Inr 1 \<and> chain_id (provider 10) = Inr 10 \<and> (1::int) \<noteq> 10
   \<and> 2 \<le> length [''tx_attest.py'', good_hash] \<and> hash_ok ([''tx_attest.py'', good_hash] ! 1)
   \<and> is_connected (provider 1) \<and> is_connected (provider 10)
   \<and> main (\<lambda>s. s) (\<lambda>e. []) ''A'' ''B'' (provider 1) (provider 10) [''tx_attest.py'', good_hash]
       = ([IsConnected ''A'', IsConnected ''B'', ChainId ''A'', ChainId ''B''], Exit 3)"
proof -
  have a: "chain_id (provider 1) = Inr 1" and b: "chain_id (provider 10) = Inr 10"
    by (simp_all add: provider_def)
  have c: "(1::int) \<noteq> 10" by simp
  have e: "main (\<lambda>s. s) (\<lambda>e. []) ''A'' ''B'' (provider 1) (provider 10) [''tx_attest.py'', good_hash]
       = ([IsConnected ''A'', IsConnected ''B'', ChainId ''A'', ChainId ''B''], Exit 3)"
    by (simp add: main_def connect_def provider_def good_hash_def hash_ok_def Let_def)
  have h: "2 \<le> length [''tx_attest.py'', good_hash] \<and> hash_ok ([''tx_attest.py'', good_hash] ! 1)
   \<and> is_connected (provider 1) \<and> is_connected (provider 10)"
    by (simp add: provider_def good_hash_def hash_ok_def)
  from main_chain_mismatch [OF a b c, of "\<lambda>s. s" "\<lambda>e. []" "''A''" "''B''" "[''tx_attest.py'', good_hash]"]
  show ?thesis using a b c e h by blast
qed

text \<open>
  C10. A record returned by \<open>canonical_tx\<close> has exactly the eighteen canonical keys, in
  the order of the dict display, and no \<open>error\<close> key; compared with any dict without an
  \<open>error\<close> key, the result of \<open>compare_txs\<close> is never the fetch failure.
\<close>

theorem canonical_tx_fields:
  assumes "canonical_tx tx = Inr c"
  shows "map fst c = canonical_keys \<and> \<not> has_key c ''error'' \<and>
    (\<forall>keccak other. \<not> has_key other ''error'' \<longrightarrow>
       (\<forall>ea eb. compare_txs keccak c other \<noteq> Inr (False, FetchFailure ea eb)
              \<and> compare_txs keccak other c \<noteq> Inr (False, FetchFailure ea eb)))"
  using canonical_tx_keys [OF assms] canonical_tx_no_error [OF assms]
  by (auto simp: compare_txs_def split: sum.splits)

text \<open>The canonical form of the empty record, compared with itself.\<close>

theorem canonical_tx_fields_witness:
  "canonical_tx [] = Inr empty_canonical \<and> map fst empty_canonical = canonical_keys
   \<and> \<not> has_key empty_canonical ''error''
   \<and> (\<forall>ea eb. compare_txs (\<lambda>s. s) empty_canonical empty_canonical \<noteq> Inr (False, FetchFailure ea eb))"
  using canonical_tx_fields [OF canonical_tx_empty] canonical_tx_empty by blast

end
